theory Spec2Isabelle
  imports Main "HOL-Library.Word"
begin

unbundle bit_operations_syntax

section \<open>Data model (mmio.h)\<close>

type_synonym u8 = "8 word"
type_synonym u16 = "16 word"
type_synonym u32 = "32 word"

text \<open>
  \<^verbatim>\<open>unsigned long\<close> is 32 bits wide on the 32-bit targets of the kernel and 64 bits
  wide on the 64-bit ones. It is modelled as \<open>'l word\<close>; a theorem that needs the width
  to be at least that of \<^verbatim>\<open>u32\<close> says so (\<open>32 \<le> LENGTH('l)\<close>).

  \<^verbatim>\<open>struct mmio_entry\<close>: the \<^verbatim>\<open>attr\<close> member is filled in by registration and read
  by nobody else; the sysfs file it stands for is kept in the \<open>files\<close> of the world
  below, under the index of the entry.
\<close>

record (overloaded) 'l mmio_entry =
  entry_name :: string
  entry_mask :: u32
  entry_flags :: "'l word"

definition MMIO_ENTRY_READ :: "'l::len word" where
  "MMIO_ENTRY_READ = push_bit 0 1"

definition MMIO_ENTRY_WRITE :: "'l::len word" where
  "MMIO_ENTRY_WRITE = push_bit 1 1"

definition MMIO_ENTRY_RW :: "'l::len word" where
  "MMIO_ENTRY_RW = MMIO_ENTRY_READ OR MMIO_ENTRY_WRITE"

text \<open>
  \<^verbatim>\<open>struct mmio_classdev\<close>. A pointer that may be \<^verbatim>\<open>NULL\<close> is an \<open>option\<close>
  (\<open>name\<close>, \<open>entries\<close>); \<open>base\<close> is the remapped address as a number, \<open>0\<close> being
  \<^verbatim>\<open>NULL\<close>. The array \<^verbatim>\<open>entries\<close> and its length \<^verbatim>\<open>num_entries\<close> are one list.
  \<^verbatim>\<open>dev\<close>, \<^verbatim>\<open>node\<close> and \<^verbatim>\<open>rwsem\<close> are state of the host kernel: the device and
  the list membership live in the world below, the semaphore orders concurrent callers
  and has no effect on one call running alone.
\<close>

record (overloaded) 'l mmio_classdev =
  cdev_name :: "string option"
  cdev_size :: u8
  cdev_entries :: "'l mmio_entry list option"
  cdev_offset :: u32
  cdev_base :: nat

definition EPERM :: int where "EPERM = 1"
definition EINVAL :: int where "EINVAL = 22"
definition EOVERFLOW :: int where "EOVERFLOW = 75"

section \<open>The world outside: register, kernel log, sysfs, list of banks\<close>

datatype access = Readb | Readw | Readl | Writeb u8 | Writew u16 | Writel u32

datatype kmsg =
    NullDeref
  | SkippingEntry nat
  | FailedSysfsFile nat
  | Registered

datatype sysfs_call = DeviceCreate string | CreateFile nat | RemoveFile nat

text \<open>
  \<open>reg_val\<close> is the content of the hardware register at \<^verbatim>\<open>base + offset\<close>: a raw read
  returns what the last raw write of the same width stored. \<open>accesses\<close> lists the raw
  accesses in the order they were made, \<open>klog\<close> the \<^verbatim>\<open>printk\<close> messages. \<open>devices\<close> and
  \<open>files\<close> are the devices of the class and the attribute files (by index of the entry)
  that exist, \<open>sysfs_calls\<close> the calls made to the device model, \<open>mmio_list\<close> the global
  list of banks.
\<close>

record (overloaded) 'l world =
  reg_val :: u32
  accesses :: "access list"
  klog :: "kmsg list"
  devices :: "string list"
  files :: "nat list"
  sysfs_calls :: "sysfs_call list"
  mmio_list :: "'l mmio_classdev list"

definition raw_readb :: "'l world \<Rightarrow> u8 \<times> 'l world" where
  "raw_readb w = (ucast (reg_val w), w\<lparr>accesses := accesses w @ [Readb]\<rparr>)"

definition raw_readw :: "'l world \<Rightarrow> u16 \<times> 'l world" where
  "raw_readw w = (ucast (reg_val w), w\<lparr>accesses := accesses w @ [Readw]\<rparr>)"

definition raw_readl :: "'l world \<Rightarrow> u32 \<times> 'l world" where
  "raw_readl w = (reg_val w, w\<lparr>accesses := accesses w @ [Readl]\<rparr>)"

definition raw_writeb :: "u8 \<Rightarrow> 'l world \<Rightarrow> 'l world" where
  "raw_writeb v w = w\<lparr>reg_val := ucast v, accesses := accesses w @ [Writeb v]\<rparr>"

definition raw_writew :: "u16 \<Rightarrow> 'l world \<Rightarrow> 'l world" where
  "raw_writew v w = w\<lparr>reg_val := ucast v, accesses := accesses w @ [Writew v]\<rparr>"

definition raw_writel :: "u32 \<Rightarrow> 'l world \<Rightarrow> 'l world" where
  "raw_writel v w = w\<lparr>reg_val := v, accesses := accesses w @ [Writel v]\<rparr>"

section \<open>mmio\_get\_value and mmio\_set\_value (mmio.c)\<close>

text \<open>The \<^verbatim>\<open>switch (parent->size)\<close> of both functions: \<^verbatim>\<open>default\<close> shares the byte case.\<close>

definition read_reg :: "'l mmio_classdev \<Rightarrow> 'l world \<Rightarrow> u32 \<times> 'l world" where
  "read_reg parent w =
     (if cdev_size parent = 2 then (let (v, w') = raw_readw w in (ucast v, w'))
      else if cdev_size parent = 4 then raw_readl w
      else (let (v, w') = raw_readb w in (ucast v, w')))"

definition write_reg :: "'l mmio_classdev \<Rightarrow> u32 \<Rightarrow> 'l world \<Rightarrow> 'l world" where
  "write_reg parent reg w =
     (if cdev_size parent = 2 then raw_writew (ucast reg) w
      else if cdev_size parent = 4 then raw_writel reg w
      else raw_writeb (ucast reg) w)"

text \<open>
  \<^verbatim>\<open>while (0 == (mask & 1)) { mask >>= 1; reg >>= 1; }\<close> The loop has no bound of its
  own, so it is a partial function: \<open>None\<close> is the loop that never leaves.
\<close>

partial_function (option) get_loop :: "u32 \<Rightarrow> u32 \<Rightarrow> u32 option" where
  "get_loop msk reg =
     (if msk AND 1 = 0 then get_loop (drop_bit 1 msk) (drop_bit 1 reg) else Some reg)"

text \<open>\<^verbatim>\<open>while (0 == (mask & 1)) { mask >>= 1; value <<= 1; }\<close>\<close>

partial_function (option) set_loop :: "u32 \<Rightarrow> 'l::len word \<Rightarrow> 'l word option" where
  "set_loop msk val =
     (if msk AND 1 = 0 then set_loop (drop_bit 1 msk) (push_bit 1 val) else Some val)"

declare get_loop.simps [code]
declare set_loop.simps [code]

definition mmio_get_value ::
  "'l::len mmio_classdev option \<Rightarrow> 'l mmio_entry option \<Rightarrow> 'l world \<Rightarrow> (u32 \<times> 'l world) option"
where
  "mmio_get_value parent entry w =
     (case (parent, entry) of
        (Some p, Some e) \<Rightarrow>
          (let (reg, w') = read_reg p w;
               reg = reg AND entry_mask e
           in case get_loop (entry_mask e) reg of
                None \<Rightarrow> None
              | Some reg \<Rightarrow> Some (reg, w'))
      | _ \<Rightarrow> Some (0, w\<lparr>klog := klog w @ [NullDeref]\<rparr>))"

text \<open>
  \<^verbatim>\<open>value & entry->mask\<close> and \<^verbatim>\<open>reg |= value\<close> are computed in \<^verbatim>\<open>unsigned long\<close>
  (the \<^verbatim>\<open>u32\<close> operand is widened), and the assignment to \<^verbatim>\<open>reg\<close> narrows again.
\<close>

definition mmio_set_value ::
  "'l::len mmio_classdev option \<Rightarrow> 'l mmio_entry option \<Rightarrow> 'l word \<Rightarrow> 'l world
     \<Rightarrow> (int \<times> 'l world) option"
where
  "mmio_set_value parent entry val w =
     (case (parent, entry) of
        (Some p, Some e) \<Rightarrow>
          (let (reg, w') = read_reg p w
           in case (if val \<noteq> 0 then set_loop (entry_mask e) val else Some val) of
                None \<Rightarrow> None
              | Some val \<Rightarrow>
                  if val AND ucast (entry_mask e) \<noteq> val then Some (- EOVERFLOW, w')
                  else
                    (let reg = reg AND NOT (entry_mask e);
                         reg = ucast (ucast reg OR val)
                     in Some (0, write_reg p reg w')))
      | _ \<Rightarrow> Some (- EINVAL, w))"

section \<open>mmio\_value\_store (mmio.c)\<close>

text \<open>
  Modelled from the spec: \<^verbatim>\<open>simple_strtoul\<close> and \<^verbatim>\<open>isspace\<close> belong to the kernel
  library, not to this repository. \<^verbatim>\<open>simple_strtoul (buf, &after, 10)\<close> reads the leading
  decimal digits of \<open>buf\<close> (no sign, no leading blanks), accumulates them with
  wrap-around and leaves \<^verbatim>\<open>after\<close> behind the last digit: the result is the value and
  the number of digits read. \<^verbatim>\<open>isspace\<close> is the kernel's table: tab to carriage return,
  blank, and the no-break space 160.
\<close>

definition isdigit :: "char \<Rightarrow> bool" where
  "isdigit c = (48 \<le> (of_char c :: nat) \<and> (of_char c :: nat) \<le> 57)"

definition isspace :: "char \<Rightarrow> bool" where
  "isspace c = ((9 \<le> (of_char c :: nat) \<and> (of_char c :: nat) \<le> 13)
                 \<or> (of_char c :: nat) = 32 \<or> (of_char c :: nat) = 160)"

definition simple_strtoul :: "string \<Rightarrow> 'l::len word \<times> nat" where
  "simple_strtoul buf =
     (let digits = takeWhile isdigit buf
      in (foldl (\<lambda>acc c. acc * 10 + of_nat (of_char c - 48)) 0 digits, length digits))"

text \<open>
  \<^verbatim>\<open>NULL\<close> has no element to read: the loops over \<^verbatim>\<open>entries\<close> run \<^verbatim>\<open>num_entries\<close>
  times, the length of the array.
\<close>

definition entries_of :: "'l mmio_classdev \<Rightarrow> 'l mmio_entry list" where
  "entries_of c = (case cdev_entries c of None \<Rightarrow> [] | Some es \<Rightarrow> es)"

text \<open>
  The handler is called with the bank (\<^verbatim>\<open>dev_get_drvdata\<close>), the name of the attribute
  and the \<open>size\<close> bytes written, \<open>size\<close> being the length of \<open>buf\<close>; sysfs ends the
  buffer with a NUL, which is what \<^verbatim>\<open>*after\<close> reads once every byte is consumed, and
  NUL is no space. The source compares the name pointers, the model the names.
\<close>

definition mmio_value_store ::
  "'l::len mmio_classdev \<Rightarrow> string \<Rightarrow> string \<Rightarrow> 'l world \<Rightarrow> (int \<times> 'l world) option"
where
  "mmio_value_store mmio_cdev attr_name buf w =
     (let (state, count) = simple_strtoul buf
      in case find (\<lambda>e. entry_name e = attr_name) (entries_of mmio_cdev) of
           None \<Rightarrow> Some (- EINVAL, w)
         | Some entry \<Rightarrow>
             if entry_flags entry AND MMIO_ENTRY_WRITE = 0 then Some (- EPERM, w)
             else
               (let count = (if count < length buf \<and> isspace (buf ! count)
                             then count + 1 else count)
                in if count = length buf
                   then (case mmio_set_value (Some mmio_cdev) (Some entry) state w of
                           None \<Rightarrow> None
                         | Some (r, w') \<Rightarrow> Some (if r < 0 then r else int count, w'))
                   else Some (- EINVAL, w)))"

section \<open>mmio\_classdev\_register (mmio.c)\<close>

text \<open>
  Modelled from the spec: \<^verbatim>\<open>device_create\<close>, \<^verbatim>\<open>device_create_file\<close> and
  \<^verbatim>\<open>device_remove_file\<close> belong to the kernel's device model (the spec's \<open>present\<close>,
  \<open>expose\<close> and \<open>unexpose\<close>). Whether they succeed is the host's choice and a
  parameter here: \<open>dc\<close> is \<open>None\<close> when \<^verbatim>\<open>device_create\<close> returns a device and
  \<open>Some err\<close> when it returns \<^verbatim>\<open>ERR_PTR (err)\<close>; \<open>dcf i\<close> is what
  \<^verbatim>\<open>device_create_file\<close> returns for the attribute of entry \<open>i\<close>, \<open>0\<close> for success.
  Removing a file that does not exist changes nothing (\<open>unexpose\<close> is idempotent).
\<close>

definition device_create :: "int option \<Rightarrow> string \<Rightarrow> 'l world \<Rightarrow> int option \<times> 'l world" where
  "device_create dc nm w =
     (case dc of
        None \<Rightarrow> (None, w\<lparr>devices := devices w @ [nm],
                           sysfs_calls := sysfs_calls w @ [DeviceCreate nm]\<rparr>)
      | Some err \<Rightarrow> (Some err, w\<lparr>sysfs_calls := sysfs_calls w @ [DeviceCreate nm]\<rparr>))"

definition device_create_file :: "(nat \<Rightarrow> int) \<Rightarrow> nat \<Rightarrow> 'l world \<Rightarrow> int \<times> 'l world" where
  "device_create_file dcf i w =
     (if dcf i = 0
      then (0, w\<lparr>files := files w @ [i], sysfs_calls := sysfs_calls w @ [CreateFile i]\<rparr>)
      else (dcf i, w\<lparr>sysfs_calls := sysfs_calls w @ [CreateFile i]\<rparr>))"

definition device_remove_file :: "nat \<Rightarrow> 'l world \<Rightarrow> 'l world" where
  "device_remove_file i w =
     w\<lparr>files := removeAll i (files w), sysfs_calls := sysfs_calls w @ [RemoveFile i]\<rparr>"

text \<open>
  The \<^verbatim>\<open>for\<close> loop over the entries, from index \<open>i\<close> on: \<open>Inr\<close> when it runs to the
  end, \<open>Inl (i, ret, w)\<close> when it leaves for \<^verbatim>\<open>failed_unregister_dev_file\<close> at index \<open>i\<close>.
\<close>

fun create_files ::
  "(nat \<Rightarrow> int) \<Rightarrow> nat \<Rightarrow> 'l mmio_entry list \<Rightarrow> 'l world \<Rightarrow> (nat \<times> int \<times> 'l world) + 'l world"
where
  "create_files dcf i [] w = Inr w"
| "create_files dcf i (e # es) w =
     (if entry_mask e = 0
      then create_files dcf (Suc i) es (w\<lparr>klog := klog w @ [SkippingEntry i]\<rparr>)
      else
        (let (ret, w') = device_create_file dcf i w
         in if ret \<noteq> 0 then Inl (i, ret, w'\<lparr>klog := klog w' @ [FailedSysfsFile i]\<rparr>)
            else create_files dcf (Suc i) es w'))"

text \<open>\<^verbatim>\<open>for (i--; i >= 0; i--) device_remove_file (...)\<close>, entered with the index \<open>i\<close>.\<close>

fun remove_files :: "nat \<Rightarrow> 'l world \<Rightarrow> 'l world" where
  "remove_files 0 w = w"
| "remove_files (Suc i) w = remove_files i (device_remove_file i w)"

text \<open>
  \<^verbatim>\<open>(int) base + offset\<close> is computed in 32 bits. The \<^verbatim>\<open>parent\<close> device is handed to
  \<^verbatim>\<open>device_create\<close> and used nowhere else; it is left out.
\<close>

definition mmio_classdev_register ::
  "int option \<Rightarrow> (nat \<Rightarrow> int) \<Rightarrow> 'l::len mmio_classdev \<Rightarrow> 'l world \<Rightarrow> int \<times> 'l world"
where
  "mmio_classdev_register dc dcf mmio_cdev w =
     (case (cdev_base mmio_cdev = 0, cdev_entries mmio_cdev, cdev_name mmio_cdev) of
        (False, Some entries, Some nm) \<Rightarrow>
          if cdev_size mmio_cdev \<noteq> 1 \<and> cdev_size mmio_cdev \<noteq> 2 \<and> cdev_size mmio_cdev \<noteq> 4
          then (- EINVAL, w)
          else if cdev_size mmio_cdev = 2
                  \<and> ((of_nat (cdev_base mmio_cdev) + cdev_offset mmio_cdev) AND (1 :: u32)) \<noteq> 0
          then (- EINVAL, w)
          else if cdev_size mmio_cdev = 4
                  \<and> ((of_nat (cdev_base mmio_cdev) + cdev_offset mmio_cdev) AND (3 :: u32)) \<noteq> 0
          then (- EINVAL, w)
          else
            (case device_create dc nm w of
               (Some err, w1) \<Rightarrow> (err, w1)
             | (None, w1) \<Rightarrow>
                 (case create_files dcf 0 entries w1 of
                    Inr w2 \<Rightarrow>
                      (0, w2\<lparr>mmio_list := mmio_list w2 @ [mmio_cdev],
                              klog := klog w2 @ [Registered]\<rparr>)
                  | Inl (i, ret, w2) \<Rightarrow> (ret, remove_files i w2)))
      | _ \<Rightarrow> (- EINVAL, w))"

section \<open>Notions of the specification\<close>

text \<open>The number of zero bits below the lowest one bit of a mask; 32 for the mask 0.\<close>

definition trailing_zero_count :: "u32 \<Rightarrow> nat" where
  "trailing_zero_count m = length (takeWhile (\<lambda>i. \<not> bit m i) [0..<32])"

text \<open>The width in bits of the raw access of a bank, and the read it makes.\<close>

definition access_bits :: "u8 \<Rightarrow> nat" where
  "access_bits sz = (if sz = 2 then 16 else if sz = 4 then 32 else 8)"

definition read_access :: "u8 \<Rightarrow> access" where
  "read_access sz = (if sz = 2 then Readw else if sz = 4 then Readl else Readb)"

text \<open>
  The two loops cut off after \<open>n\<close> iterations: \<open>None\<close> when an iteration \<open>n + 1\<close>
  would start.
\<close>

fun get_loop_within :: "nat \<Rightarrow> u32 \<Rightarrow> u32 \<Rightarrow> u32 option" where
  "get_loop_within 0 msk reg = (if msk AND 1 = 0 then None else Some reg)"
| "get_loop_within (Suc n) msk reg =
     (if msk AND 1 = 0 then get_loop_within n (drop_bit 1 msk) (drop_bit 1 reg) else Some reg)"

fun set_loop_within :: "nat \<Rightarrow> u32 \<Rightarrow> 'l::len word \<Rightarrow> 'l word option" where
  "set_loop_within 0 msk val = (if msk AND 1 = 0 then None else Some val)"
| "set_loop_within (Suc n) msk val =
     (if msk AND 1 = 0 then set_loop_within n (drop_bit 1 msk) (push_bit 1 val) else Some val)"

text \<open>
  The entries below index \<open>k\<close> that registration binds to an exposure, and the ones it
  skips.
\<close>

definition bound_upto :: "'l mmio_entry list \<Rightarrow> nat \<Rightarrow> nat list" where
  "bound_upto es k = [j \<leftarrow> [0..<k]. entry_mask (es ! j) \<noteq> 0]"

definition skipped_upto :: "'l mmio_entry list \<Rightarrow> nat \<Rightarrow> nat list" where
  "skipped_upto es k = [j \<leftarrow> [0..<k]. entry_mask (es ! j) = 0]"

text \<open>The conditions under which registration has to fail with InvalidArgument.\<close>

definition invalid_argument :: "'l mmio_classdev \<Rightarrow> bool" where
  "invalid_argument c \<longleftrightarrow>
     cdev_base c = 0 \<or> cdev_entries c = None \<or> cdev_name c = None
     \<or> cdev_size c \<notin> {1, 2, 4}
     \<or> (cdev_size c = 2 \<and> odd (cdev_base c + unat (cdev_offset c)))
     \<or> (cdev_size c = 4 \<and> \<not> 4 dvd (cdev_base c + unat (cdev_offset c)))"

text \<open>
  The number a string of decimal digits denotes, and the length the write handler
  counts as consumed: the leading digits and one space after them, if there is one.
\<close>

definition decimal :: "string \<Rightarrow> nat" where
  "decimal ds = foldl (\<lambda>n c. 10 * n + (of_char c - 48)) 0 ds"

definition consumed :: "string \<Rightarrow> nat" where
  "consumed buf =
     (let n = length (takeWhile isdigit buf)
      in if n < length buf \<and> isspace (buf ! n) then n + 1 else n)"

section \<open>Example banks\<close>

text \<open>
  The bank of the spec's example (width 4, a field with mask \<open>0x0000FF00\<close>), and a bank
  of width 1 with a field whose mask lies above the byte the bank accesses.
\<close>

definition idle_world :: "32 world" where
  "idle_world = \<lparr>reg_val = 0x12345678, accesses = [], klog = [], devices = [], files = [],
                  sysfs_calls = [], mmio_list = []\<rparr>"

definition ctrl_field :: "32 mmio_entry" where
  "ctrl_field = \<lparr>entry_name = ''ctrl'', entry_mask = 0xFF00, entry_flags = MMIO_ENTRY_RW\<rparr>"

definition word_bank :: "32 mmio_classdev" where
  "word_bank = \<lparr>cdev_name = Some ''bank0'', cdev_size = 4, cdev_entries = Some [ctrl_field],
                 cdev_offset = 0, cdev_base = 4096\<rparr>"

definition high_field :: "32 mmio_entry" where
  "high_field = \<lparr>entry_name = ''high'', entry_mask = 0x100, entry_flags = MMIO_ENTRY_RW\<rparr>"

definition byte_bank :: "32 mmio_classdev" where
  "byte_bank = \<lparr>cdev_name = Some ''bank1'', cdev_size = 1, cdev_entries = Some [high_field],
                 cdev_offset = 0, cdev_base = 4096\<rparr>"

text \<open>A bank of width 2 with a reserved entry and a read-only one.\<close>

definition status_entries :: "32 mmio_entry list" where
  "status_entries =
     [\<lparr>entry_name = ''enable'', entry_mask = 0x0001, entry_flags = MMIO_ENTRY_RW\<rparr>,
      \<lparr>entry_name = ''reserved'', entry_mask = 0, entry_flags = MMIO_ENTRY_RW\<rparr>,
      \<lparr>entry_name = ''mode'', entry_mask = 0x00F0, entry_flags = MMIO_ENTRY_RW\<rparr>,
      \<lparr>entry_name = ''irq'', entry_mask = 0x0100, entry_flags = MMIO_ENTRY_READ\<rparr>]"

definition status_bank :: "32 mmio_classdev" where
  "status_bank =
     \<lparr>cdev_name = Some ''status'', cdev_size = 2, cdev_entries = Some status_entries,
      cdev_offset = 2, cdev_base = 4096\<rparr>"

section \<open>The loops and the trailing zero count\<close>

lemma tzc_le: "trailing_zero_count m \<le> 32"
  unfolding trailing_zero_count_def
  using length_takeWhile_le[of "\<lambda>i. \<not> bit m i" "[0..<32]"] by simp

lemma tzc_zero_below: "i < trailing_zero_count m \<Longrightarrow> \<not> bit m i"
proof -
  assume a: "i < trailing_zero_count m"
  let ?P = "\<lambda>i. \<not> bit m i"
  have "takeWhile ?P [0..<32] ! i \<in> set (takeWhile ?P [0..<32])"
    using a unfolding trailing_zero_count_def by (intro nth_mem) 
  then have "?P (takeWhile ?P [0..<32] ! i)" by (rule set_takeWhileD[THEN conjunct2])
  moreover have "takeWhile ?P [0..<32] ! i = [0..<32] ! i"
    using a unfolding trailing_zero_count_def by (rule takeWhile_nth)
  moreover have "i < 32" using a tzc_le[of m] by simp
  ultimately show ?thesis by simp
qed

lemma tzc_bit:
  assumes "m \<noteq> 0"
  shows "trailing_zero_count m < 32 \<and> bit m (trailing_zero_count m)"
proof -
  let ?P = "\<lambda>i. \<not> bit m i"
  from assms obtain n where n: "bit m n" by (auto simp: bit_eq_iff)
  then have n32: "n < 32" using bit_imp_le_length[of m n] by simp
  have lt: "trailing_zero_count m < 32"
  proof (rule ccontr)
    assume "\<not> trailing_zero_count m < 32"
    then have "n < trailing_zero_count m" using n32 by simp
    from tzc_zero_below[OF this] n show False by simp
  qed
  then have "length (takeWhile ?P [0..<32]) < length [0..<32]" by (simp add: trailing_zero_count_def)
  from nth_length_takeWhile[OF this] lt show ?thesis by (simp add: trailing_zero_count_def)
qed

lemma and1_iff: "(m :: 'a::len word) AND 1 = 0 \<longleftrightarrow> \<not> bit m 0"
  by (simp add: and_one_eq bit_0 mod_2_eq_odd)

lemma get_loop_shift:
  "(\<forall>i<k. \<not> bit m i) \<Longrightarrow> bit m k \<Longrightarrow> get_loop m r = Some (drop_bit k r)"
proof (induction k arbitrary: m r)
  case 0
  then show ?case by (subst get_loop.simps) (simp add: and1_iff)
next
  case (Suc k)
  have "\<not> bit m 0" using Suc.prems(1) by simp
  moreover have "get_loop (drop_bit 1 m) (drop_bit 1 r) = Some (drop_bit k (drop_bit 1 r))"
    using Suc.prems by (intro Suc.IH) (simp_all add: bit_simps)
  ultimately show ?case by (subst get_loop.simps) (simp add: and1_iff)
qed

lemma set_loop_shift:
  "(\<forall>i<k. \<not> bit m i) \<Longrightarrow> bit m k \<Longrightarrow> set_loop m v = Some (push_bit k v)"
proof (induction k arbitrary: m v)
  case 0
  then show ?case by (subst set_loop.simps) (simp add: and1_iff)
next
  case (Suc k)
  have "\<not> bit m 0" using Suc.prems(1) by simp
  moreover have "set_loop (drop_bit 1 m) (push_bit 1 v) = Some (push_bit k (push_bit 1 v))"
    using Suc.prems by (intro Suc.IH) (simp_all add: bit_simps)
  ultimately show ?case by (subst set_loop.simps) (simp add: and1_iff push_bit_double mult.commute)
qed


lemma get_loop_zero: "get_loop 0 r = None"
proof -
  have "m \<noteq> 0" if "get_loop m r = Some y" for m r y
    by (rule get_loop.raw_induct[where P="\<lambda>m r y. m \<noteq> 0", OF _ that]) (fastforce split: if_splits)
  then show ?thesis by (cases "get_loop 0 r") auto
qed

lemma set_loop_zero: "set_loop 0 v = None"
proof -
  have "m \<noteq> 0" if "set_loop m v = Some y" for m and v y :: "'a word"
    by (rule set_loop.raw_induct[where P="\<lambda>m v y. m \<noteq> 0", OF _ that]) (fastforce split: if_splits)
  then show ?thesis by (cases "set_loop 0 v") auto
qed

lemma read_reg_eq:
  "read_reg p w = (take_bit (access_bits (cdev_size p)) (reg_val w),
                   w\<lparr>accesses := accesses w @ [read_access (cdev_size p)]\<rparr>)"
  by (auto simp add: read_reg_def raw_readb_def raw_readw_def raw_readl_def access_bits_def
      read_access_def bit_eq_iff bit_simps)

lemma reg_val_write_reg:
  "reg_val (write_reg p reg w) = take_bit (access_bits (cdev_size p)) reg"
  by (auto simp add: write_reg_def raw_writeb_def raw_writew_def raw_writel_def access_bits_def
      bit_eq_iff bit_simps)

lemma narrow_or:
  assumes "32 \<le> LENGTH('l::len)"
  shows "(ucast ((ucast (reg :: u32) :: 'l word) OR v) :: u32) = reg OR ucast v"
  using assms by (auto simp add: bit_eq_iff bit_simps)

lemma get_loop_eq:
  "m \<noteq> 0 \<Longrightarrow> get_loop m r = Some (drop_bit (trailing_zero_count m) r)"
  using tzc_bit[of m] tzc_zero_below[of _ m] by (simp add: get_loop_shift)

lemma get_value_eq:
  assumes "entry_mask e \<noteq> 0"
  shows "mmio_get_value (Some p) (Some e) w =
    Some (drop_bit (trailing_zero_count (entry_mask e)) (fst (read_reg p w) AND entry_mask e),
          snd (read_reg p w))"
  using assms by (simp add: mmio_get_value_def get_loop_eq split: prod.splits)

lemma set_loop_eq:
  "m \<noteq> 0 \<Longrightarrow> set_loop m v = Some (push_bit (trailing_zero_count m) v)"
  using tzc_bit[of m] tzc_zero_below[of _ m] by (simp add: set_loop_shift)

lemma set_value_eq:
  assumes "entry_mask e \<noteq> 0 \<or> v = 0"
  shows "mmio_set_value (Some p) (Some e) v w =
    (let s = push_bit (trailing_zero_count (entry_mask e)) v in
     if s AND ucast (entry_mask e) \<noteq> s then Some (- EOVERFLOW, snd (read_reg p w))
     else Some (0, write_reg p (ucast (ucast (fst (read_reg p w) AND NOT (entry_mask e)) OR s))
                    (snd (read_reg p w))))"
  using assms
  by (cases "v = 0") (auto simp add: mmio_set_value_def set_loop_eq Let_def split: prod.splits)

lemma set_value_diverges:
  assumes "entry_mask e = 0" "v \<noteq> 0"
  shows "mmio_set_value (Some p) (Some e) v w = None"
  using assms by (simp add: mmio_set_value_def set_loop_zero split: prod.splits)

lemma get_value_diverges:
  assumes "entry_mask e = 0"
  shows "mmio_get_value (Some p) (Some e) w = None"
  using assms by (simp add: mmio_get_value_def get_loop_zero split: prod.splits)


lemma get_loop_within_eq:
  "(\<forall>i<k. \<not> bit m i) \<Longrightarrow> bit m k \<Longrightarrow> k \<le> n \<Longrightarrow> get_loop_within n m r = Some (drop_bit k r)"
proof (induction n arbitrary: k m r)
  case 0
  then show ?case by (simp add: and1_iff)
next
  case (Suc n)
  show ?case
  proof (cases k)
    case 0
    with Suc.prems show ?thesis by (simp add: and1_iff)
  next
    case (Suc k')
    have "\<not> bit m 0" using Suc.prems(1) Suc by simp
    moreover have "get_loop_within n (drop_bit 1 m) (drop_bit 1 r) = Some (drop_bit k' (drop_bit 1 r))"
      using Suc.prems Suc by (intro Suc.IH) (simp_all add: bit_simps)
    ultimately show ?thesis using Suc by (simp add: and1_iff)
  qed
qed

lemma set_loop_within_eq:
  "(\<forall>i<k. \<not> bit m i) \<Longrightarrow> bit m k \<Longrightarrow> k \<le> n \<Longrightarrow> set_loop_within n m v = Some (push_bit k v)"
proof (induction n arbitrary: k m v)
  case 0
  then show ?case by (simp add: and1_iff)
next
  case (Suc n)
  show ?case
  proof (cases k)
    case 0
    with Suc.prems show ?thesis by (simp add: and1_iff)
  next
    case (Suc k')
    have "\<not> bit m 0" using Suc.prems(1) Suc by simp
    moreover have "set_loop_within n (drop_bit 1 m) (push_bit 1 v) = Some (push_bit k' (push_bit 1 v))"
      using Suc.prems Suc by (intro Suc.IH) (simp_all add: bit_simps)
    ultimately show ?thesis using Suc by (simp add: and1_iff push_bit_double mult.commute)
  qed
qed

lemma mask_bits_below_32: "bit (m :: u32) n \<Longrightarrow> n < 32"
  using bit_imp_le_length[of m n] by simp

lemma unat_ucast_wide:
  fixes r :: u32
  assumes "32 \<le> LENGTH('l::len)"
  shows "unat (ucast r :: 'l word) = unat r"
proof -
  have "unat r < 2 ^ 32" using unsigned_less[of r] by simp
  also have "(2::nat) ^ 32 \<le> 2 ^ LENGTH('l)" using assms by (intro power_increasing) simp_all
  finally show ?thesis by (simp add: unsigned_ucast_eq take_bit_nat_eq_self)
qed

lemma read_after_write:
  "fst (read_reg p (write_reg p reg w)) = take_bit (access_bits (cdev_size p)) reg"
  by (simp add: read_reg_eq reg_val_write_reg)

text \<open>What the "fits" condition of the spec says bit by bit.\<close>

lemma fits_nat_bits:
  fixes v :: "'l::len word" and m :: u32
  assumes "push_bit t (unat v) AND unat m = push_bit t (unat v)"
  shows "bit v k \<Longrightarrow> bit m (k + t)"
proof -
  assume k: "bit v k"
  then have "bit (push_bit t (unat v)) (k + t)"
    by (simp add: bit_push_bit_iff bit_unsigned_iff)
  then have "bit (push_bit t (unat v) AND unat m) (k + t)" using assms by simp
  then show ?thesis by (simp add: bit_and_iff bit_unsigned_iff)
qed

lemma fits_word_of_bits:
  fixes v :: "'l::len word" and m :: u32
  assumes "\<And>k. bit v k \<Longrightarrow> bit m (k + t)"
  shows "push_bit t v AND ucast m = push_bit t v"
proof (rule bit_eqI)
  fix n
  assume "possible_bit TYPE('l word) n"
  show "bit (push_bit t v AND ucast m) n = bit (push_bit t v) n"
    using assms[of "n - t"] by (auto simp add: bit_simps)
qed

lemma tzc_ff00: "trailing_zero_count 0xFF00 = 8"
  by code_simp

lemma tzc_100: "trailing_zero_count 0x100 = 8"
  by code_simp


section \<open>Claims about get and set\<close>

text \<open>
  C1 (as amended). The claim as stated fails on a bank whose access is narrower than
  the mask: \<open>set\<close> succeeds there and the bits of the field above the access width are
  cut off by the write. What holds: for a field with non-zero mask that lies inside
  the access width of its bank, and for every value \<open>v\<close> such that \<open>v\<close> shifted left by
  the trailing zero count of the mask, computed without wrap-around, has all its bits
  inside the mask, \<open>set\<close> succeeds and the \<open>get\<close> that follows returns \<open>v\<close>. The register
  model returns at a raw read the value last written.
\<close>

theorem set_then_get:
  fixes v :: "'l::len word"
  assumes L: "32 \<le> LENGTH('l)"
    and nz: "entry_mask e \<noteq> 0"
    and inside: "take_bit (access_bits (cdev_size p)) (entry_mask e) = entry_mask e"
    and fits: "push_bit (trailing_zero_count (entry_mask e)) (unat v) AND unat (entry_mask e)
                 = push_bit (trailing_zero_count (entry_mask e)) (unat v)"
  shows "\<exists>w1 w2 r. mmio_set_value (Some p) (Some e) v w = Some (0, w1)
           \<and> mmio_get_value (Some p) (Some e) w1 = Some (r, w2) \<and> unat r = unat v"
proof -
  let ?m = "entry_mask e"
  let ?t = "trailing_zero_count ?m"
  let ?W = "access_bits (cdev_size p)"
  let ?s = "push_bit ?t v"
  let ?old = "fst (read_reg p w)"
  let ?reg = "ucast (ucast (?old AND NOT ?m) OR ?s) :: u32"
  let ?w1 = "write_reg p ?reg (snd (read_reg p w))"
  let ?r = "drop_bit ?t (fst (read_reg p ?w1) AND ?m)"
  have H: "bit v k \<Longrightarrow> bit ?m (k + ?t)" for k
    using fits_nat_bits[OF fits] .
  have s_fits: "?s AND ucast ?m = ?s"
    by (rule fits_word_of_bits) (rule H)
  have set: "mmio_set_value (Some p) (Some e) v w = Some (0, ?w1)"
    using nz s_fits by (simp add: set_value_eq Let_def)
  have get: "mmio_get_value (Some p) (Some e) ?w1 = Some (?r, snd (read_reg p ?w1))"
    using nz by (rule get_value_eq)
  have mW: "bit ?m n \<Longrightarrow> n < ?W" for n
  proof -
    assume "bit ?m n"
    then have "bit (take_bit ?W ?m) n" using inside by simp
    then show "n < ?W" by (simp add: bit_take_bit_iff)
  qed
  have "ucast ?r = v"
  proof (rule bit_eqI)
    fix k
    assume pk: "possible_bit TYPE('l word) k"
    show "bit (ucast ?r :: 'l word) k = bit v k"
    proof (cases "bit v k")
      case True
      from H[OF True] have mk: "bit ?m (k + ?t)" .
      then have "k + ?t < 32" "k + ?t < ?W" using mask_bits_below_32 mW by blast+
      with True mk pk L show ?thesis
        by (simp add: read_after_write narrow_or[OF L] bit_simps add.commute)
    next
      case False
      then show ?thesis
        by (auto simp add: read_after_write narrow_or[OF L] bit_simps add.commute)
    qed
  qed
  then have "unat (ucast ?r :: 'l word) = unat v" by simp
  moreover have "unat (ucast ?r :: 'l word) = unat ?r"
    using L by (rule unat_ucast_wide)
  ultimately have "unat ?r = unat v" by simp
  with set get show ?thesis by blast
qed


theorem set_then_get_witness:
  "\<exists>w1 w2 r. mmio_set_value (Some word_bank) (Some ctrl_field) 0x2A idle_world = Some (0, w1)
      \<and> mmio_get_value (Some word_bank) (Some ctrl_field) w1 = Some (r, w2) \<and> unat r = 0x2A"
  using set_then_get [of ctrl_field word_bank "0x2A :: 32 word" idle_world]
  by (simp add: ctrl_field_def word_bank_def access_bits_def tzc_ff00)


text \<open>
  The failing case: \<open>byte_bank\<close> passes registration, the value 1 fits the field
  \<open>0x100\<close>, \<open>set\<close> returns 0 and writes the byte \<open>0x78\<close> it has read, and \<open>get\<close>
  returns 0.
\<close>

theorem set_then_get_counterexample:
  "fst (mmio_classdev_register None (\<lambda>i. 0) byte_bank idle_world) = 0
   \<and> entry_mask high_field \<noteq> 0
   \<and> push_bit (trailing_zero_count (entry_mask high_field)) (1 :: 32 word)
         AND ucast (entry_mask high_field)
       = push_bit (trailing_zero_count (entry_mask high_field)) 1
   \<and> mmio_set_value (Some byte_bank) (Some high_field) 1 idle_world
       = Some (0, idle_world\<lparr>reg_val := 0x78, accesses := [Readb, Writeb 0x78]\<rparr>)
   \<and> mmio_get_value (Some byte_bank) (Some high_field)
         (idle_world\<lparr>reg_val := 0x78, accesses := [Readb, Writeb 0x78]\<rparr>)
       = Some (0, idle_world\<lparr>reg_val := 0x78, accesses := [Readb, Writeb 0x78, Readb]\<rparr>)"
  by (simp add: mmio_classdev_register_def device_create_def device_create_file_def
      byte_bank_def high_field_def idle_world_def tzc_100 set_value_eq get_value_eq
      read_reg_eq write_reg_def raw_writeb_def access_bits_def read_access_def EINVAL_def
      EOVERFLOW_def)


text \<open>
  The shift of \<open>set\<close> is the one of \<^verbatim>\<open>unsigned long\<close> and loses the bits it moves
  past the top: with 32 bits, \<open>0x01000001\<close> passes the check of the field \<open>0xFF00\<close>
  as \<open>0x100\<close>, and \<open>get\<close> returns 1.
\<close>

lemma set_then_get_wrapped:
  "push_bit (trailing_zero_count (entry_mask ctrl_field)) (0x01000001 :: 32 word)
         AND ucast (entry_mask ctrl_field)
       = push_bit (trailing_zero_count (entry_mask ctrl_field)) 0x01000001
   \<and> mmio_set_value (Some word_bank) (Some ctrl_field) 0x01000001 idle_world
       = Some (0, idle_world\<lparr>reg_val := 0x12340178, accesses := [Readl, Writel 0x12340178]\<rparr>)
   \<and> mmio_get_value (Some word_bank) (Some ctrl_field)
         (idle_world\<lparr>reg_val := 0x12340178, accesses := [Readl, Writel 0x12340178]\<rparr>)
       = Some (1, idle_world\<lparr>reg_val := 0x12340178,
                               accesses := [Readl, Writel 0x12340178, Readl]\<rparr>)"
  by (simp add: word_bank_def ctrl_field_def idle_world_def tzc_ff00 set_value_eq get_value_eq
      read_reg_eq write_reg_def raw_writel_def access_bits_def read_access_def EINVAL_def
      EOVERFLOW_def)


text \<open>
  What \<open>set\<close> does about overflow, in the arithmetic of the code: it returns
  \<^verbatim>\<open>-EOVERFLOW\<close> exactly when the value is not zero, the mask is not zero and the
  value, shifted left by the trailing zero count of the mask with the shift of
  \<^verbatim>\<open>unsigned long\<close>, is changed by the AND with the mask; then the world is the one
  before with a single raw read added, so the register keeps its value and nothing is
  written.
\<close>

lemma set_value_overflow:
  "mmio_set_value (Some p) (Some e) v w = Some (- EOVERFLOW, w') \<longleftrightarrow>
     v \<noteq> 0 \<and> entry_mask e \<noteq> 0
     \<and> push_bit (trailing_zero_count (entry_mask e)) v AND ucast (entry_mask e)
           \<noteq> push_bit (trailing_zero_count (entry_mask e)) v
     \<and> w' = w\<lparr>accesses := accesses w @ [read_access (cdev_size p)]\<rparr>"
proof (cases "entry_mask e = 0")
  case True
  show ?thesis
  proof (cases "v = 0")
    case True
    then show ?thesis by (simp add: set_value_eq EOVERFLOW_def)
  next
    case False
    with \<open>entry_mask e = 0\<close> show ?thesis by (simp add: set_value_diverges)
  qed
next
  case False
  then show ?thesis
    by (cases "v = 0") (auto simp add: set_value_eq Let_def read_reg_eq EOVERFLOW_def)
qed

lemma set_value_overflow_example:
  "mmio_set_value (Some word_bank) (Some ctrl_field) 0x1FF idle_world
     = Some (- EOVERFLOW, idle_world\<lparr>accesses := [Readl]\<rparr>)"
  using set_value_overflow [of word_bank ctrl_field "0x1FF" idle_world
      "idle_world\<lparr>accesses := [Readl]\<rparr>"]
  by (simp add: word_bank_def ctrl_field_def idle_world_def tzc_ff00 read_access_def)

text \<open>
  C2. The claim asks for \<^verbatim>\<open>-EOVERFLOW\<close> and an untouched register whenever the value,
  shifted to the position of the field, does not lie inside the mask. The code makes
  that check, but on a value whose shift has already lost the bits moved past the top
  of \<^verbatim>\<open>unsigned long\<close>. With 32 bits and the field \<open>0xFF00\<close>, the value \<open>0x01000001\<close>
  shifted by 8 is \<open>0x100000100\<close>, which does not lie inside the mask; \<open>set\<close> compares
  \<open>0x100\<close>, returns 0 and writes \<open>0x01\<close> into the field.
\<close>

theorem set_value_overflow_missed:
  "push_bit (trailing_zero_count (entry_mask ctrl_field)) (unat (0x01000001 :: 32 word))
       AND unat (entry_mask ctrl_field)
     \<noteq> push_bit (trailing_zero_count (entry_mask ctrl_field)) (unat (0x01000001 :: 32 word))
   \<and> mmio_set_value (Some word_bank) (Some ctrl_field) 0x01000001 idle_world
       = Some (0, idle_world\<lparr>reg_val := 0x12340178, accesses := [Readl, Writel 0x12340178]\<rparr>)
   \<and> reg_val (idle_world\<lparr>reg_val := 0x12340178, accesses := [Readl, Writel 0x12340178]\<rparr>)
       \<noteq> reg_val idle_world"
  by (simp add: word_bank_def ctrl_field_def idle_world_def tzc_ff00 set_value_eq
      read_reg_eq write_reg_def raw_writel_def access_bits_def read_access_def EINVAL_def
      EOVERFLOW_def push_bit_eq_mult)

text \<open>
  For a field with mask 0 and a value other than 0, which no shift brings inside the
  mask, \<open>set\<close> reports nothing: its loop never leaves.
\<close>

lemma set_value_mask_zero_hangs:
  "entry_mask (status_entries ! 1) = 0
   \<and> mmio_set_value (Some status_bank) (Some (status_entries ! 1)) 1 idle_world = None"
  by (simp add: status_entries_def set_value_diverges)

text \<open>
  C3 (as amended). The claim as stated fails on a bank whose access is narrower than
  the mask: the value written is cut to the access width. What holds: a successful
  \<open>set\<close> writes the old register value with the bits of the mask replaced by the
  shifted value, cut to the access width of the bank; every bit outside the mask has
  the value that was read; and when the mask lies inside the access width nothing is
  cut.
\<close>

theorem set_value_frame:
  fixes v :: "'l::len word"
  assumes L: "32 \<le> LENGTH('l)"
    and ok: "mmio_set_value (Some p) (Some e) v w = Some (0, w')"
  shows "reg_val w' = take_bit (access_bits (cdev_size p))
                        ((fst (read_reg p w) AND NOT (entry_mask e))
                           OR ucast (push_bit (trailing_zero_count (entry_mask e)) v))
         \<and> (\<forall>n. \<not> bit (entry_mask e) n \<longrightarrow> bit (reg_val w') n = bit (fst (read_reg p w)) n)
         \<and> (take_bit (access_bits (cdev_size p)) (entry_mask e) = entry_mask e \<longrightarrow>
              reg_val w' = (fst (read_reg p w) AND NOT (entry_mask e))
                             OR ucast (push_bit (trailing_zero_count (entry_mask e)) v))"
proof -
  let ?m = "entry_mask e"
  let ?W = "access_bits (cdev_size p)"
  let ?s = "push_bit (trailing_zero_count ?m) v"
  let ?old = "fst (read_reg p w)"
  have dom: "?m \<noteq> 0 \<or> v = 0"
    using ok set_value_diverges[of e v p w] by auto
  from ok have s_fits: "?s AND ucast ?m = ?s"
    by (simp add: set_value_eq[OF dom] Let_def EOVERFLOW_def split: if_splits)
  from ok have w': "w' = write_reg p (ucast (ucast (?old AND NOT ?m) OR ?s)) (snd (read_reg p w))"
    by (simp add: set_value_eq[OF dom] Let_def EOVERFLOW_def split: if_splits)
  have val: "reg_val w' = take_bit ?W ((?old AND NOT ?m) OR ucast ?s)"
    by (simp add: w' reg_val_write_reg narrow_or[OF L])
  have s_in_m: "bit (ucast ?s :: u32) n \<Longrightarrow> bit ?m n" for n
  proof -
    assume "bit (ucast ?s :: u32) n"
    then have "bit ?s n" by (simp add: bit_ucast_iff)
    then have "bit (?s AND ucast ?m) n" using s_fits by simp
    then show "bit ?m n" by (simp add: bit_and_iff bit_ucast_iff)
  qed
  have old_W: "bit ?old n \<Longrightarrow> n < ?W" for n
    by (simp add: read_reg_eq bit_take_bit_iff)
  have frame: "bit (reg_val w') n = bit ?old n" if "\<not> bit ?m n" for n
    using that s_in_m[of n] old_W[of n] mask_bits_below_32[of ?old n]
    by (auto simp add: val bit_take_bit_iff bit_or_iff bit_and_iff bit_not_iff)
  have exact: "reg_val w' = (?old AND NOT ?m) OR ucast ?s"
    if inside: "take_bit ?W ?m = ?m"
  proof -
    have mW: "bit ?m n \<Longrightarrow> n < ?W" for n
    proof -
      assume "bit ?m n"
      then have "bit (take_bit ?W ?m) n" using inside by simp
      then show "n < ?W" by (simp add: bit_take_bit_iff)
    qed
    show ?thesis
    proof (rule bit_eqI)
      fix n
      show "bit (reg_val w') n = bit ((?old AND NOT ?m) OR ucast ?s) n"
        using s_in_m[of n] old_W[of n] mW[of n] mask_bits_below_32[of ?old n]
        by (auto simp add: val bit_take_bit_iff bit_or_iff bit_and_iff bit_not_iff)
    qed
  qed
  from val frame exact show ?thesis by blast
qed

theorem set_value_frame_witness:
  "32 \<le> LENGTH(32)
   \<and> mmio_set_value (Some word_bank) (Some ctrl_field) 0x2A idle_world
       = Some (0, idle_world\<lparr>reg_val := 0x12342A78, accesses := [Readl, Writel 0x12342A78]\<rparr>)
   \<and> reg_val (idle_world\<lparr>reg_val := 0x12342A78, accesses := [Readl, Writel 0x12342A78]\<rparr>)
       = (0x12345678 AND NOT 0xFF00) OR 0x2A00
   \<and> \<not> bit (0xFF00 :: u32) 4
   \<and> bit (reg_val (idle_world\<lparr>reg_val := 0x12342A78,
                                 accesses := [Readl, Writel 0x12342A78]\<rparr>)) 4
       = bit (0x12345678 :: u32) 4"
proof -
  have ok: "mmio_set_value (Some word_bank) (Some ctrl_field) 0x2A idle_world
       = Some (0, idle_world\<lparr>reg_val := 0x12342A78, accesses := [Readl, Writel 0x12342A78]\<rparr>)"
    by (simp add: word_bank_def ctrl_field_def idle_world_def tzc_ff00 set_value_eq
        read_reg_eq write_reg_def raw_writel_def access_bits_def read_access_def EOVERFLOW_def)
  have L: "32 \<le> LENGTH(32)" by simp
  from set_value_frame [OF L ok] ok show ?thesis
    by (simp add: word_bank_def ctrl_field_def idle_world_def read_reg_eq access_bits_def)
qed

text \<open>
  The failing case: on \<open>byte_bank\<close> the value 1 fits the field \<open>0x100\<close>, \<open>set\<close> returns
  0 and the register holds \<open>0x78\<close>, not \<open>0x178\<close>.
\<close>

theorem set_value_frame_counterexample:
  "mmio_set_value (Some byte_bank) (Some high_field) 1 idle_world
       = Some (0, idle_world\<lparr>reg_val := 0x78, accesses := [Readb, Writeb 0x78]\<rparr>)
   \<and> reg_val (idle_world\<lparr>reg_val := 0x78, accesses := [Readb, Writeb 0x78]\<rparr>)
       \<noteq> (fst (read_reg byte_bank idle_world) AND NOT (entry_mask high_field))
           OR ucast (push_bit (trailing_zero_count (entry_mask high_field)) (1 :: 32 word))"
  by (simp add: byte_bank_def high_field_def idle_world_def tzc_100 set_value_eq
      read_reg_eq write_reg_def raw_writeb_def access_bits_def read_access_def EOVERFLOW_def)

text \<open>
  C4. For a non-null bank and a field with non-zero mask, \<open>get\<close> returns what the raw
  read returns, ANDed with the mask and shifted right by the trailing zero count of the
  mask.
\<close>

theorem get_value_field:
  assumes "entry_mask e \<noteq> 0"
  shows "mmio_get_value (Some p) (Some e) w =
    Some (drop_bit (trailing_zero_count (entry_mask e)) (fst (read_reg p w) AND entry_mask e),
          snd (read_reg p w))"
  using assms by (rule get_value_eq)

theorem get_value_field_witness:
  "entry_mask ctrl_field \<noteq> 0
   \<and> mmio_get_value (Some word_bank) (Some ctrl_field) idle_world
       = Some (0x56, idle_world\<lparr>accesses := [Readl]\<rparr>)"
  using get_value_field [of ctrl_field word_bank idle_world]
  by (simp add: word_bank_def ctrl_field_def idle_world_def tzc_ff00 read_reg_eq
      access_bits_def read_access_def)

text \<open>
  C8. With a null bank or a null field, \<open>get\<close> logs the condition and returns 0, while
  \<open>set\<close> returns \<^verbatim>\<open>-EINVAL\<close>; neither touches the register (the world of \<open>set\<close> is
  unchanged, that of \<open>get\<close> has one more log message).
\<close>

theorem null_get_set:
  assumes "parent = None \<or> entry = None"
  shows "mmio_get_value parent entry w = Some (0, w\<lparr>klog := klog w @ [NullDeref]\<rparr>)
         \<and> mmio_set_value parent entry v w = Some (- EINVAL, w)"
  using assms by (cases parent; cases entry) (simp_all add: mmio_get_value_def mmio_set_value_def)

theorem null_get_set_witness:
  "mmio_get_value None (Some ctrl_field) idle_world
       = Some (0, idle_world\<lparr>klog := [NullDeref]\<rparr>)
   \<and> mmio_set_value None (Some ctrl_field) 0x2A idle_world = Some (- EINVAL, idle_world)"
  using null_get_set [of None "Some ctrl_field" idle_world "0x2A"]
  by (simp add: idle_world_def)

text \<open>
  C10. With a non-null bank and field, \<open>get\<close> returns exactly when the mask is not
  zero, and \<open>set\<close> returns exactly when the mask is not zero or the value is zero;
  otherwise their loop never leaves. With a non-zero mask either loop is through
  after at most 31 iterations.
\<close>

theorem get_set_terminate:
  "((\<exists>r. mmio_get_value (Some p) (Some e) w = Some r) \<longleftrightarrow> entry_mask e \<noteq> 0)
   \<and> ((\<exists>r. mmio_set_value (Some p) (Some e) v w = Some r) \<longleftrightarrow> entry_mask e \<noteq> 0 \<or> v = 0)
   \<and> (entry_mask e \<noteq> 0 \<longrightarrow>
          get_loop (entry_mask e) reg \<noteq> None
          \<and> get_loop_within 31 (entry_mask e) reg = get_loop (entry_mask e) reg
          \<and> set_loop (entry_mask e) v \<noteq> None
          \<and> set_loop_within 31 (entry_mask e) v = set_loop (entry_mask e) v)"
proof -
  have g: "(\<exists>r. mmio_get_value (Some p) (Some e) w = Some r) \<longleftrightarrow> entry_mask e \<noteq> 0"
    by (cases "entry_mask e = 0") (simp_all add: get_value_diverges get_value_eq)
  have s: "(\<exists>r. mmio_set_value (Some p) (Some e) v w = Some r) \<longleftrightarrow> entry_mask e \<noteq> 0 \<or> v = 0"
  proof (cases "entry_mask e \<noteq> 0 \<or> v = 0")
    case True
    then show ?thesis by (simp add: set_value_eq Let_def)
  next
    case False
    then show ?thesis by (simp add: set_value_diverges)
  qed
  have b: "get_loop (entry_mask e) reg \<noteq> None
         \<and> get_loop_within 31 (entry_mask e) reg = get_loop (entry_mask e) reg
         \<and> set_loop (entry_mask e) v \<noteq> None
         \<and> set_loop_within 31 (entry_mask e) v = set_loop (entry_mask e) v"
    if nz: "entry_mask e \<noteq> 0"
  proof -
    let ?m = "entry_mask e"
    have t: "trailing_zero_count ?m \<le> 31" "bit ?m (trailing_zero_count ?m)"
      using tzc_bit[OF nz] by simp_all
    have z: "\<forall>i<trailing_zero_count ?m. \<not> bit ?m i"
      using tzc_zero_below by blast
    show ?thesis
      using get_loop_within_eq[OF z t(2) t(1)] set_loop_within_eq[OF z t(2) t(1)] nz
      by (simp add: get_loop_eq set_loop_eq)
  qed
  from g s b show ?thesis by blast
qed

theorem get_set_terminate_witness:
  "(\<exists>r. mmio_get_value (Some word_bank) (Some ctrl_field) idle_world = Some r)
   \<and> (\<exists>r. mmio_set_value (Some word_bank) (Some ctrl_field) 0x2A idle_world = Some r)
   \<and> get_loop_within 31 (entry_mask ctrl_field) 0x5600 = get_loop (entry_mask ctrl_field) 0x5600"
  using get_set_terminate [of word_bank ctrl_field idle_world "0x2A" "0x5600"]
  by (simp add: ctrl_field_def)

text \<open>The bound is reached by the mask with the top bit alone.\<close>

lemma get_loop_within_tight: "get_loop_within 30 0x80000000 reg = None"
  by code_simp

section \<open>Registration\<close>

lemma unat_base_plus_offset:
  "unat (of_nat b + off :: u32) = (b + unat off) mod 2 ^ 32"
  by (simp add: unat_word_ariths unat_of_nat mod_add_left_eq)

lemma and_1_unat: "((x :: u32) AND 1 \<noteq> 0) \<longleftrightarrow> odd (unat x)"
proof -
  have "bit (unat x) 0 \<longleftrightarrow> bit x 0" by (simp add: bit_unsigned_iff)
  then show ?thesis by (simp add: and1_iff bit_0)
qed

lemma and_3_unat: "((x :: u32) AND 3 \<noteq> 0) \<longleftrightarrow> \<not> 4 dvd unat x"
proof -
  have a: "x AND 3 = take_bit 2 x"
    by (simp add: take_bit_eq_mask mask_numeral)
  have b: "take_bit 2 x = 0 \<longleftrightarrow> unat (take_bit 2 x) = 0"
    by (simp add: unsigned_eq_0_iff)
  have c: "unat (take_bit 2 x) = take_bit 2 (unat x)"
    by (simp add: unsigned_take_bit_eq)
  have d: "take_bit 2 (unat x) = 0 \<longleftrightarrow> 4 dvd unat x"
    by (simp add: take_bit_eq_0_iff)
  show ?thesis unfolding a b c d ..
qed

lemma misaligned_2: "((of_nat b + off :: u32) AND 1 \<noteq> 0) \<longleftrightarrow> odd (b + unat off)"
proof -
  have "(2::nat) dvd 2 ^ 32" by simp
  then have "2 dvd (b + unat off) mod 2 ^ 32 \<longleftrightarrow> 2 dvd (b + unat off)"
    by (rule dvd_mod_iff)
  then show ?thesis by (simp only: and_1_unat unat_base_plus_offset)
qed

lemma misaligned_4: "((of_nat b + off :: u32) AND 3 \<noteq> 0) \<longleftrightarrow> \<not> 4 dvd (b + unat off)"
proof -
  have "(4::nat) dvd 2 ^ 32" by simp
  then have "4 dvd (b + unat off) mod 2 ^ 32 \<longleftrightarrow> 4 dvd (b + unat off)"
    by (rule dvd_mod_iff)
  then show ?thesis by (simp only: and_3_unat unat_base_plus_offset)
qed

lemma upt_0_Suc: "[0..<Suc k] = 0 # map Suc [0..<k]"
  by (simp add: upt_conv_Cons map_Suc_upt del: upt_Suc)

lemma bound_upto_Cons:
  "bound_upto (e # es) (Suc k) =
     (if entry_mask e \<noteq> 0 then [0] else []) @ map Suc (bound_upto es k)"
  unfolding bound_upto_def upt_0_Suc by (simp add: filter_map comp_def)

lemma skipped_upto_Cons:
  "skipped_upto (e # es) (Suc k) =
     (if entry_mask e = 0 then [0] else []) @ map Suc (skipped_upto es k)"
  unfolding skipped_upto_def upt_0_Suc by (simp add: filter_map comp_def)

lemma bound_upto_0: "bound_upto es 0 = []"
  by (simp add: bound_upto_def)

lemma skipped_upto_0: "skipped_upto es 0 = []"
  by (simp add: skipped_upto_def)

lemma create_files_done:
  "(\<forall>j<length es. entry_mask (es ! j) \<noteq> 0 \<longrightarrow> dcf (i + j) = 0) \<Longrightarrow>
   create_files dcf i es w =
     Inr (w\<lparr>files := files w @ map ((+) i) (bound_upto es (length es)),
            sysfs_calls := sysfs_calls w @ map (\<lambda>j. CreateFile (i + j)) (bound_upto es (length es)),
            klog := klog w @ map (\<lambda>j. SkippingEntry (i + j)) (skipped_upto es (length es))\<rparr>)"
proof (induction es arbitrary: i w)
  case Nil
  then show ?case by (simp add: bound_upto_0 skipped_upto_0)
next
  case (Cons e es)
  have rest: "\<forall>j<length es. entry_mask (es ! j) \<noteq> 0 \<longrightarrow> dcf (Suc i + j) = 0"
    using Cons.prems by force
  show ?case
  proof (cases "entry_mask e = 0")
    case True
    then show ?thesis
      by (simp add: Cons.IH[OF rest] bound_upto_Cons skipped_upto_Cons comp_def)
  next
    case False
    then have "dcf i = 0" using Cons.prems by force
    with False show ?thesis
      by (simp add: Cons.IH[OF rest] bound_upto_Cons skipped_upto_Cons comp_def
          device_create_file_def)
  qed
qed

lemma create_files_fails:
  "k < length es \<Longrightarrow> entry_mask (es ! k) \<noteq> 0 \<Longrightarrow> dcf (i + k) \<noteq> 0 \<Longrightarrow>
   (\<forall>j<k. entry_mask (es ! j) \<noteq> 0 \<longrightarrow> dcf (i + j) = 0) \<Longrightarrow>
   create_files dcf i es w =
     Inl (i + k, dcf (i + k),
          w\<lparr>files := files w @ map ((+) i) (bound_upto es k),
            sysfs_calls := sysfs_calls w @ map (\<lambda>j. CreateFile (i + j)) (bound_upto es k)
                             @ [CreateFile (i + k)],
            klog := klog w @ map (\<lambda>j. SkippingEntry (i + j)) (skipped_upto es k)
                      @ [FailedSysfsFile (i + k)]\<rparr>)"
proof (induction es arbitrary: i k w)
  case Nil
  then show ?case by simp
next
  case (Cons e es)
  show ?case
  proof (cases k)
    case 0
    with Cons.prems show ?thesis
      by (simp add: bound_upto_0 skipped_upto_0 device_create_file_def)
  next
    case (Suc k')
    have p1: "k' < length es" "entry_mask (es ! k') \<noteq> 0" "dcf (Suc i + k') \<noteq> 0"
      using Cons.prems Suc by simp_all
    have p2: "\<forall>j<k'. entry_mask (es ! j) \<noteq> 0 \<longrightarrow> dcf (Suc i + j) = 0"
      using Cons.prems(4) Suc by force
    note IH = Cons.IH[OF p1 p2]
    show ?thesis
    proof (cases "entry_mask e = 0")
      case True
      then show ?thesis
        by (simp add: Suc IH bound_upto_Cons skipped_upto_Cons comp_def)
    next
      case False
      then have "dcf i = 0" using Cons.prems(4) Suc by force
      with False show ?thesis
        by (simp add: Suc IH bound_upto_Cons skipped_upto_Cons comp_def device_create_file_def)
    qed
  qed
qed

lemma remove_files_eq:
  "remove_files k w =
     w\<lparr>files := [j \<leftarrow> files w. k \<le> j],
       sysfs_calls := sysfs_calls w @ map RemoveFile (rev [0..<k])\<rparr>"
proof (induction k arbitrary: w)
  case 0
  then show ?case by simp
next
  case (Suc k)
  have "[j \<leftarrow> removeAll k (files w). k \<le> j] = [j \<leftarrow> files w. Suc k \<le> j]"
    by (induction "files w" arbitrary: w) (auto simp add: removeAll_filter_not_eq intro: filter_cong)
  then show ?case
    by (simp add: Suc.IH device_remove_file_def)
qed

lemma register_valid:
  assumes "\<not> invalid_argument c" "cdev_entries c = Some es" "cdev_name c = Some nm"
  shows "mmio_classdev_register dc dcf c w =
    (case device_create dc nm w of
       (Some err, w1) \<Rightarrow> (err, w1)
     | (None, w1) \<Rightarrow>
         (case create_files dcf 0 es w1 of
            Inr w2 \<Rightarrow> (0, w2\<lparr>mmio_list := mmio_list w2 @ [c], klog := klog w2 @ [Registered]\<rparr>)
          | Inl (i, ret, w2) \<Rightarrow> (ret, remove_files i w2)))"
  using assms
  by (auto simp add: invalid_argument_def mmio_classdev_register_def misaligned_2 misaligned_4)

lemma map_add_0: "map ((+) (0::nat)) xs = xs"
  by (induction xs) simp_all

lemma bound_upto_below: "j \<in> set (bound_upto es k) \<Longrightarrow> j < k"
  by (simp add: bound_upto_def)

lemma status_bank_valid: "\<not> invalid_argument status_bank"
  by (simp add: invalid_argument_def status_bank_def)

lemma status_bound_3: "bound_upto status_entries 3 = [0, 2]"
  by code_simp

lemma status_skipped_3: "skipped_upto status_entries 3 = [1]"
  by code_simp

lemma status_bound_4: "bound_upto status_entries 4 = [0, 2, 3]"
  by code_simp

lemma status_skipped_4: "skipped_upto status_entries 4 = [1]"
  by code_simp

text \<open>
  C5. Registration fails with \<^verbatim>\<open>-EINVAL\<close> and leaves the world as it was (no raw
  access, no device, no call to the device model) whenever the base, the entries or
  the name is null, or the size is none of 1, 2 and 4, or the size is 2 and
  \<open>base + offset\<close> is odd, or the size is 4 and \<open>base + offset\<close> is no multiple of 4.
\<close>

theorem register_invalid:
  assumes "cdev_base c = 0 \<or> cdev_entries c = None \<or> cdev_name c = None
           \<or> cdev_size c \<notin> {1, 2, 4}
           \<or> (cdev_size c = 2 \<and> odd (cdev_base c + unat (cdev_offset c)))
           \<or> (cdev_size c = 4 \<and> \<not> 4 dvd (cdev_base c + unat (cdev_offset c)))"
  shows "mmio_classdev_register dc dcf c w = (- EINVAL, w)"
proof (cases "cdev_base c = 0 \<or> cdev_entries c = None \<or> cdev_name c = None")
  case True
  then show ?thesis
    by (auto simp add: mmio_classdev_register_def split: option.splits bool.splits)
next
  case False
  then obtain es nm where "cdev_base c \<noteq> 0" "cdev_entries c = Some es" "cdev_name c = Some nm"
    by auto
  with assms show ?thesis
    by (auto simp add: mmio_classdev_register_def misaligned_2 misaligned_4)
qed

theorem register_invalid_witness:
  "mmio_classdev_register None (\<lambda>i. 0) (status_bank\<lparr>cdev_offset := 1\<rparr>) idle_world
     = (- EINVAL, idle_world)"
  using register_invalid [of "status_bank\<lparr>cdev_offset := 1\<rparr>" None "\<lambda>i. 0" idle_world]
  by (simp add: status_bank_def)

text \<open>
  C6. When the bank is valid, the device is created and \<^verbatim>\<open>device_create_file\<close> fails
  first at entry \<open>k\<close>, registration returns that failure; it calls
  \<^verbatim>\<open>device_remove_file\<close> for the entries \<open>k - 1\<close> down to \<open>0\<close>, which covers every
  exposure bound before, so that no file with an index below \<open>k\<close> is left; and the
  list of banks is as before. (The removal is also called for the skipped entries,
  and the device created for the bank stays.)
\<close>

theorem register_rollback:
  assumes valid: "\<not> invalid_argument c"
    and es: "cdev_entries c = Some es" and nm: "cdev_name c = Some nm"
    and k: "k < length es" "entry_mask (es ! k) \<noteq> 0" "dcf k \<noteq> 0"
    and before: "\<forall>j<k. entry_mask (es ! j) \<noteq> 0 \<longrightarrow> dcf j = 0"
  shows "mmio_classdev_register None dcf c w =
    (dcf k,
     w\<lparr>devices := devices w @ [nm],
       files := [j \<leftarrow> files w. k \<le> j],
       sysfs_calls := sysfs_calls w @ [DeviceCreate nm]
                        @ map CreateFile (bound_upto es k) @ [CreateFile k]
                        @ map RemoveFile (rev [0..<k]),
       klog := klog w @ map SkippingEntry (skipped_upto es k) @ [FailedSysfsFile k]\<rparr>)
    \<and> set (bound_upto es k) \<subseteq> set (rev [0..<k])
    \<and> mmio_list (snd (mmio_classdev_register None dcf c w)) = mmio_list w"
proof -
  have b: "\<forall>j<k. entry_mask (es ! j) \<noteq> 0 \<longrightarrow> dcf (0 + j) = 0" using before by simp
  have f: "[j \<leftarrow> bound_upto es k. k \<le> j] = []"
    by (auto simp add: filter_empty_conv dest: bound_upto_below)
  have r: "mmio_classdev_register None dcf c w =
    (dcf k,
     w\<lparr>devices := devices w @ [nm],
       files := [j \<leftarrow> files w. k \<le> j],
       sysfs_calls := sysfs_calls w @ [DeviceCreate nm]
                        @ map CreateFile (bound_upto es k) @ [CreateFile k]
                        @ map RemoveFile (rev [0..<k]),
       klog := klog w @ map SkippingEntry (skipped_upto es k) @ [FailedSysfsFile k]\<rparr>)"
    using create_files_fails[of k es dcf 0, OF k(1) k(2) _ b] k(3)
    by (simp add: register_valid[OF valid es nm] device_create_def remove_files_eq f map_add_0)
  have s: "set (bound_upto es k) \<subseteq> set (rev [0..<k])"
    using bound_upto_below[of _ es k] by auto
  from r s show ?thesis by simp
qed

theorem register_rollback_witness:
  "mmio_classdev_register None (\<lambda>i. if i = 3 then - 12 else 0) status_bank idle_world =
    (- 12,
     idle_world\<lparr>devices := [''status''],
       sysfs_calls := [DeviceCreate ''status'', CreateFile 0, CreateFile 2, CreateFile 3,
                       RemoveFile 2, RemoveFile 1, RemoveFile 0],
       klog := [SkippingEntry 1, FailedSysfsFile 3]\<rparr>)
   \<and> mmio_list (snd (mmio_classdev_register None (\<lambda>i. if i = 3 then - 12 else 0)
                        status_bank idle_world)) = []"
proof -
  let ?dcf = "\<lambda>i :: nat. if i = 3 then - 12 else (0 :: int)"
  have es: "cdev_entries status_bank = Some status_entries"
    and nm: "cdev_name status_bank = Some ''status''"
    by (simp_all add: status_bank_def)
  have k: "3 < length status_entries" "entry_mask (status_entries ! 3) \<noteq> 0" "?dcf 3 \<noteq> 0"
    by (simp_all add: status_entries_def)
  have before: "\<forall>j<3. entry_mask (status_entries ! j) \<noteq> 0 \<longrightarrow> ?dcf j = 0"
    by simp
  have r: "rev [0..<3] = [2, 1, 0]"
    by (simp add: numeral_3_eq_3)
  from register_rollback [OF status_bank_valid es nm k before, of idle_world]
  show ?thesis
    by (simp add: status_bound_3 status_skipped_3 r idle_world_def)
qed

text \<open>
  C7. When the bank is valid, the device is created and every
  \<^verbatim>\<open>device_create_file\<close> succeeds, registration returns 0: every entry with mask 0 is
  skipped with a log message, every other entry gets its file, in the order of the
  entries, and the bank is appended to the list of banks.
\<close>

theorem register_exposes:
  assumes valid: "\<not> invalid_argument c"
    and es: "cdev_entries c = Some es" and nm: "cdev_name c = Some nm"
    and ok: "\<forall>j<length es. entry_mask (es ! j) \<noteq> 0 \<longrightarrow> dcf j = 0"
  shows "mmio_classdev_register None dcf c w =
    (0,
     w\<lparr>devices := devices w @ [nm],
       files := files w @ bound_upto es (length es),
       sysfs_calls := sysfs_calls w @ [DeviceCreate nm]
                        @ map CreateFile (bound_upto es (length es)),
       klog := klog w @ map SkippingEntry (skipped_upto es (length es)) @ [Registered],
       mmio_list := mmio_list w @ [c]\<rparr>)"
proof -
  have b: "\<forall>j<length es. entry_mask (es ! j) \<noteq> 0 \<longrightarrow> dcf (0 + j) = 0" using ok by simp
  show ?thesis
    using create_files_done[of es dcf 0, OF b]
    by (simp add: register_valid[OF valid es nm] device_create_def map_add_0)
qed

theorem register_exposes_witness:
  "mmio_classdev_register None (\<lambda>i. 0) status_bank idle_world =
    (0,
     idle_world\<lparr>devices := [''status''],
       files := [0, 2, 3],
       sysfs_calls := [DeviceCreate ''status'', CreateFile 0, CreateFile 2, CreateFile 3],
       klog := [SkippingEntry 1, Registered],
       mmio_list := [status_bank]\<rparr>)"
proof -
  have es: "cdev_entries status_bank = Some status_entries"
    and nm: "cdev_name status_bank = Some ''status''"
    by (simp_all add: status_bank_def)
  have n: "length status_entries = 4"
    by (simp add: status_entries_def)
  from register_exposes [OF status_bank_valid es nm, of "\<lambda>i. 0" idle_world]
  show ?thesis
    by (simp add: n status_bound_4 status_skipped_4 idle_world_def)
qed

section \<open>The write handler\<close>

lemma foldl_strtoul:
  "foldl (\<lambda>acc c. acc * 10 + of_nat (of_char c - 48)) (of_nat a) ds
     = (of_nat (foldl (\<lambda>n c. 10 * n + (of_char c - 48)) a ds) :: 'l::len word)"
proof (induction ds arbitrary: a)
  case Nil
  then show ?case by simp
next
  case (Cons c ds)
  have "(of_nat a * 10 + of_nat (of_char c - 48) :: 'l word)
          = of_nat (10 * a + (of_char c - 48))"
    by simp
  then show ?case
    using Cons.IH[of "10 * a + (of_char c - 48)"] by (simp only: foldl_Cons)
qed

lemma simple_strtoul_eq:
  "simple_strtoul buf =
     (of_nat (decimal (takeWhile isdigit buf)), length (takeWhile isdigit buf))"
  using foldl_strtoul[of 0 "takeWhile isdigit buf"]
  by (simp add: simple_strtoul_def decimal_def Let_def)

lemma find_ctrl: "find (\<lambda>e. entry_name e = ''ctrl'') (entries_of word_bank) = Some ctrl_field"
  by (simp add: entries_of_def word_bank_def ctrl_field_def)

lemma decimal_42: "decimal ''42'' = 42"
  by (simp add: decimal_def)

text \<open>
  C9 (as amended). The claim as stated fails on a field without write permission:
  the handler answers \<^verbatim>\<open>-EPERM\<close> whatever the input is. What holds: for an attribute
  that names an entry with write permission, the handler reads the leading decimal
  digits and counts one space after them, if there is one; when that is the whole
  input it hands the number read to \<open>set\<close> and returns the length of the input, or
  the error of \<open>set\<close>; otherwise it returns \<^verbatim>\<open>-EINVAL\<close> and the world is unchanged, so
  \<open>set\<close> was not called.
\<close>

theorem store_parses:
  assumes found: "find (\<lambda>e. entry_name e = attr_name) (entries_of c) = Some e"
    and writable: "entry_flags e AND MMIO_ENTRY_WRITE \<noteq> 0"
  shows "mmio_value_store c attr_name buf w =
     (if consumed buf = length buf
      then (case mmio_set_value (Some c) (Some e) (of_nat (decimal (takeWhile isdigit buf))) w of
              None \<Rightarrow> None
            | Some (r, w') \<Rightarrow> Some (if r < 0 then r else int (length buf), w'))
      else Some (- EINVAL, w))"
proof (cases "consumed buf = length buf")
  case True
  with found writable show ?thesis
    by (auto simp add: mmio_value_store_def simple_strtoul_eq consumed_def Let_def
        split: option.splits if_splits)
next
  case False
  with found writable show ?thesis
    by (auto simp add: mmio_value_store_def simple_strtoul_eq consumed_def Let_def
        split: if_splits)
qed

theorem store_parses_witness:
  "mmio_value_store word_bank ''ctrl'' ''42\<newline>'' idle_world
     = Some (3, idle_world\<lparr>reg_val := 0x12342A78, accesses := [Readl, Writel 0x12342A78]\<rparr>)
   \<and> mmio_value_store word_bank ''ctrl'' ''42x'' idle_world = Some (- EINVAL, idle_world)"
proof -
  have w: "entry_flags ctrl_field AND MMIO_ENTRY_WRITE \<noteq> 0"
    by (simp add: ctrl_field_def MMIO_ENTRY_RW_def MMIO_ENTRY_READ_def MMIO_ENTRY_WRITE_def)
  have d: "takeWhile isdigit ''42\<newline>'' = ''42''" "takeWhile isdigit ''42x'' = ''42''"
    by (simp_all add: isdigit_def)
  have c: "consumed ''42\<newline>'' = 3" "consumed ''42x'' = 2"
    by (simp_all add: consumed_def isdigit_def isspace_def)
  have s: "mmio_set_value (Some word_bank) (Some ctrl_field) 42 idle_world
       = Some (0, idle_world\<lparr>reg_val := 0x12342A78, accesses := [Readl, Writel 0x12342A78]\<rparr>)"
    by (simp add: word_bank_def ctrl_field_def idle_world_def tzc_ff00 set_value_eq
        read_reg_eq write_reg_def raw_writel_def access_bits_def read_access_def EOVERFLOW_def)
  from store_parses [OF find_ctrl w, of "''42\<newline>''" idle_world, unfolded c d decimal_42]
    store_parses [OF find_ctrl w, of "''42x''" idle_world, unfolded c d decimal_42]
  show ?thesis
    by (simp add: s)
qed

text \<open>
  The failing case: the entry \<open>irq\<close> of \<open>status_bank\<close> is read-only; the input
  \<open>abc\<close> has no digit and no space, and the handler returns \<^verbatim>\<open>-EPERM\<close>.
\<close>

theorem store_parses_counterexample:
  "consumed ''abc'' \<noteq> length ''abc''
   \<and> mmio_value_store status_bank ''irq'' ''abc'' idle_world = Some (- EPERM, idle_world)
   \<and> - EPERM \<noteq> - EINVAL"
  by (simp add: consumed_def isdigit_def isspace_def mmio_value_store_def simple_strtoul_def
      entries_of_def status_bank_def status_entries_def MMIO_ENTRY_READ_def
      MMIO_ENTRY_WRITE_def EPERM_def EINVAL_def)

text \<open>On an entry without write permission every input is answered with \<^verbatim>\<open>-EPERM\<close>.\<close>

lemma store_not_writable:
  assumes "find (\<lambda>e. entry_name e = attr_name) (entries_of c) = Some e"
    and "entry_flags e AND MMIO_ENTRY_WRITE = 0"
  shows "mmio_value_store c attr_name buf w = Some (- EPERM, w)"
  using assms by (simp add: mmio_value_store_def split: prod.splits)

end
